theory Spec2Isabelle
  imports Main "HOL-Library.Char_ord" "HOL-Library.List_Lexorder"
begin

section \<open>Data model of the WIP core\<close>

text \<open>
  Instants (\<^verbatim>\<open>pd.Timestamp\<close>, \<^verbatim>\<open>datetime\<close>) are integers counting nanoseconds since
  the epoch in UTC, durations (\<^verbatim>\<open>pd.Timedelta\<close>) are integers counting nanoseconds.
  A timestamp of the tracker is the string the tracker sent. Parsing it,
  \<^verbatim>\<open>pd.to_datetime(..., utc=True)\<close>, is library code: it is the parameter \<open>to_datetime\<close> of
  every function below that parses. The source sorts a changelog by the raw \<^verbatim>\<open>created\<close>
  strings and parses them afterwards; Python compares strings lexicographically by code
  point, which is the order of \<open>string\<close> here.

  A changelog entry whose \<^verbatim>\<open>created\<close> key is absent has \<open>created = None\<close>. The issue's own
  creation time (\<^verbatim>\<open>fields.created\<close>) is taken to be present.
\<close>

datatype error = KeyError

record item =
  item_field :: "string option"
  item_fromString :: "string option"
  item_toString :: "string option"

record history =
  created :: "string option"
  items :: "item list"

record issue =
  issue_key :: string
  issue_summary :: string
  issue_assignee :: "string option"
  issue_status :: "string option"
  issue_created :: string
  issue_histories :: "history list"

record wip_record =
  wip_key :: string
  wip_summary :: string
  wip_assignee :: "string option"
  wip_start :: int
  wip_end :: int

text \<open>The mutable variables of \<^verbatim>\<open>parse_wip_ranges\<close>.\<close>

record pstate =
  wip_records :: "wip_record list"
  seen_keys :: "string set"
  missing_details :: "(string \<times> string) list"
  in_progress_start :: "int option"
  in_progress_end :: "int option"

definition DAY :: int where
  "DAY = 86400000000000"

section \<open>\<^verbatim>\<open>parse_wip_ranges\<close>\<close>

text \<open>The record appended for an issue, with the issue's metadata.\<close>

definition mk_record :: "issue \<Rightarrow> int \<Rightarrow> int \<Rightarrow> wip_record" where
  "mk_record issue s e =
     \<lparr>wip_key = issue_key issue, wip_summary = issue_summary issue,
      wip_assignee = issue_assignee issue, wip_start = s, wip_end = e\<rparr>"

text \<open>
  The body of the inner loop over the items of one changelog entry (source lines 294-310),
  \<open>timestamp\<close> being the parsed \<^verbatim>\<open>created\<close> of the entry.
  A \<^verbatim>\<open>pd.Timestamp\<close> is always truthy, so \<^verbatim>\<open>in_progress_start\<close> as a condition is
  \<open>in_progress_start \<noteq> None\<close>. Closing an interval resets \<^verbatim>\<open>in_progress_start\<close> and
  leaves \<^verbatim>\<open>in_progress_end\<close> set.
\<close>

definition item_step :: "issue \<Rightarrow> int \<Rightarrow> item \<Rightarrow> pstate \<Rightarrow> pstate" where
  "item_step issue timestamp it st =
     (if item_field it = Some ''status'' then
        if item_toString it = Some ''In Progress'' \<and> in_progress_start st = None then
          st\<lparr>in_progress_start := Some timestamp\<rparr>
        else if item_fromString it = Some ''In Progress'' \<and> in_progress_start st \<noteq> None then
          st\<lparr>in_progress_end := Some timestamp,
             wip_records := wip_records st @ [mk_record issue (the (in_progress_start st)) timestamp],
             in_progress_start := None\<rparr>
        else st
      else st)"

text \<open>One entry of the sorted changelog, paired with its raw \<^verbatim>\<open>created\<close> string.\<close>

definition entry_step ::
  "(string \<Rightarrow> int) \<Rightarrow> issue \<Rightarrow> string \<times> history \<Rightarrow> pstate \<Rightarrow> pstate" where
  "entry_step to_datetime issue ke st =
     fold (item_step issue (to_datetime (fst ke))) (items (snd ke)) st"

text \<open>
  \<^verbatim>\<open>sorted(changelog, key=lambda x: x["created"])\<close>: the key of every entry is computed
  first, and an entry without the key raises \<^verbatim>\<open>KeyError\<close>; the sort is stable and compares
  the raw strings.
\<close>

fun entry_keys :: "history list \<Rightarrow> error + (string \<times> history) list" where
  "entry_keys [] = Inr []"
| "entry_keys (h # hs) =
     (case created h of
        None \<Rightarrow> Inl KeyError
      | Some k \<Rightarrow> (case entry_keys hs of Inl e \<Rightarrow> Inl e | Inr khs \<Rightarrow> Inr ((k, h) # khs)))"

definition sorted_changelog :: "history list \<Rightarrow> error + (string \<times> history) list" where
  "sorted_changelog changelog =
     (case entry_keys changelog of Inl e \<Rightarrow> Inl e | Inr khs \<Rightarrow> Inr (sort_key fst khs))"

text \<open>The block under \<^verbatim>\<open># Still in progress\<close> (source lines 313-321).\<close>

definition still_in_progress :: "int \<Rightarrow> issue \<Rightarrow> pstate \<Rightarrow> pstate" where
  "still_in_progress end_date issue st =
     (if in_progress_start st \<noteq> None \<and> in_progress_end st = None
         \<and> issue_status issue = Some ''In Progress'' then
        st\<lparr>wip_records := wip_records st @ [mk_record issue (the (in_progress_start st)) end_date],
           seen_keys := insert (issue_key issue) (seen_keys st)\<rparr>
      else st)"

text \<open>
  The block under \<^verbatim>\<open># Fallback logic\<close> (source lines 324-334); \<^verbatim>\<open>created_date\<close> of line 284
  is \<open>to_datetime (issue_created issue)\<close>.
\<close>

definition fallback :: "(string \<Rightarrow> int) \<Rightarrow> int \<Rightarrow> issue \<Rightarrow> pstate \<Rightarrow> pstate" where
  "fallback to_datetime end_date issue st =
     (if issue_status issue = Some ''In Progress'' \<and> issue_key issue \<notin> seen_keys st then
        st\<lparr>wip_records := wip_records st @
               [mk_record issue (max (to_datetime (issue_created issue)) (end_date - 30 * DAY))
                  end_date],
           seen_keys := insert (issue_key issue) (seen_keys st),
           missing_details := missing_details st @ [(issue_key issue, issue_summary issue)]\<rparr>
      else st)"

text \<open>One iteration of the loop over the issues (source lines 279-334).\<close>

definition walk ::
  "(string \<Rightarrow> int) \<Rightarrow> issue \<Rightarrow> (string \<times> history) list \<Rightarrow> pstate \<Rightarrow> pstate" where
  "walk to_datetime issue entries st =
     fold (entry_step to_datetime issue) entries
       (st\<lparr>in_progress_start := None, in_progress_end := None\<rparr>)"

definition issue_step :: "(string \<Rightarrow> int) \<Rightarrow> int \<Rightarrow> issue \<Rightarrow> pstate \<Rightarrow> error + pstate" where
  "issue_step to_datetime end_date issue st =
     (case sorted_changelog (issue_histories issue) of
        Inl e \<Rightarrow> Inl e
      | Inr entries \<Rightarrow>
          Inr (fallback to_datetime end_date issue
                (still_in_progress end_date issue (walk to_datetime issue entries st))))"

fun parse_loop :: "(string \<Rightarrow> int) \<Rightarrow> int \<Rightarrow> issue list \<Rightarrow> pstate \<Rightarrow> error + pstate" where
  "parse_loop to_datetime end_date [] st = Inr st"
| "parse_loop to_datetime end_date (issue # issues) st =
     (case issue_step to_datetime end_date issue st of
        Inl e \<Rightarrow> Inl e
      | Inr st' \<Rightarrow> parse_loop to_datetime end_date issues st')"

definition init_state :: pstate where
  "init_state = \<lparr>wip_records = [], seen_keys = {}, missing_details = [],
                 in_progress_start = None, in_progress_end = None\<rparr>"

definition parse_wip_ranges ::
  "(string \<Rightarrow> int) \<Rightarrow> issue list \<Rightarrow> int
     \<Rightarrow> error + (wip_record list \<times> (string \<times> string) list)" where
  "parse_wip_ranges to_datetime issues end_date =
     (case parse_loop to_datetime end_date issues init_state of
        Inl e \<Rightarrow> Inl e
      | Inr st \<Rightarrow> Inr (wip_records st, missing_details st))"

section \<open>\<^verbatim>\<open>get_issues_in_progress_in_month\<close>\<close>

text \<open>
  \<^verbatim>\<open>pd.Period(target_month_str, freq="M")\<close> is library code: \<open>period\<close> gives the pair
  (\<^verbatim>\<open>start_time\<close>, \<^verbatim>\<open>end_time\<close>) of the month a string names. \<^verbatim>\<open>Timedelta.days\<close> is the
  floor of the duration in days. \<^verbatim>\<open>pd.DataFrame(matched)\<close> of an empty list has no
  columns, and \<^verbatim>\<open>sort_values("in_progress_start")\<close> on it raises \<^verbatim>\<open>KeyError\<close>. The frame
  is modelled by the list of its rows; rows with equal start keep their order here, which
  no theorem below depends on.
\<close>

record matched_row =
  row_key :: string
  row_summary :: string
  row_assignee :: "string option"
  row_in_progress_start :: int
  row_in_progress_end :: int
  row_days_in_progress :: int

definition matched_row_of :: "wip_record \<Rightarrow> matched_row" where
  "matched_row_of r =
     \<lparr>row_key = wip_key r, row_summary = wip_summary r, row_assignee = wip_assignee r,
      row_in_progress_start = wip_start r, row_in_progress_end = wip_end r,
      row_days_in_progress = (wip_end r - wip_start r) div DAY\<rparr>"

definition get_issues_in_progress_in_month ::
  "(string \<Rightarrow> int \<times> int) \<Rightarrow> wip_record list \<Rightarrow> string \<Rightarrow> error + matched_row list" where
  "get_issues_in_progress_in_month period wip_recs target_month_str =
     (let start_of_month = fst (period target_month_str);
          end_of_month = snd (period target_month_str);
          matched = map matched_row_of
            (filter (\<lambda>r. wip_start r \<le> end_of_month \<and> wip_end r \<ge> start_of_month) wip_recs)
      in if matched = [] then Inl KeyError
         else Inr (sort_key row_in_progress_start matched))"

section \<open>The daily WIP counts\<close>

text \<open>
  \<^verbatim>\<open>plot_daily_wip_time_series\<close> and \<^verbatim>\<open>show_daily_wip_table\<close> compute the same series
  \<^verbatim>\<open>wip_counts\<close> before they draw it. The reading of the clock,
  \<^verbatim>\<open>datetime.now(timezone.utc)\<close>, is the argument \<open>now\<close>; the series is the list of its
  (day, count) pairs in index order.
\<close>

definition end_of_day :: "int \<Rightarrow> int" where
  "end_of_day now = (now div DAY) * DAY + (DAY - 1000)"

definition date_range :: "int \<Rightarrow> int \<Rightarrow> int list" where
  "date_range start_date end_date =
     map (\<lambda>k. start_date + k * DAY) [0..(end_date - start_date) div DAY]"

definition count_record :: "wip_record \<Rightarrow> (int \<times> nat) list \<Rightarrow> (int \<times> nat) list" where
  "count_record r wip_counts =
     map (\<lambda>(day, c). if wip_start r \<le> day \<and> day \<le> wip_end r then (day, c + 1) else (day, c))
       wip_counts"

definition daily_wip_counts :: "int \<Rightarrow> int \<Rightarrow> wip_record list \<Rightarrow> (int \<times> nat) list" where
  "daily_wip_counts now days_lookback wip_recs =
     (let end_date = end_of_day now;
          start_date = end_date - days_lookback * DAY
      in fold count_record wip_recs (map (\<lambda>day. (day, 0)) (date_range start_date end_date)))"

section \<open>Calls in a world\<close>





section \<open>Notions used to state the properties\<close>

text \<open>
  The walk over one changelog touches only the interval list and the two pointers, so its
  effect on any state is its effect on the initial state, put after the intervals that
  were there (\<open>rebase\<close>).
\<close>

definition rebase ::
  "pstate \<Rightarrow> wip_record list \<Rightarrow> string set \<Rightarrow> (string \<times> string) list \<Rightarrow> pstate" where
  "rebase st pre S M =
     st\<lparr>wip_records := pre @ wip_records st, seen_keys := S, missing_details := M\<rparr>"

text \<open>
  \<open>opens\<close>: the condition of the still-in-progress block after the walk of an issue.
  \<open>falls_back\<close>: the condition of the fallback block, given the keys seen before the issue.
\<close>

definition opens :: "(string \<Rightarrow> int) \<Rightarrow> issue \<Rightarrow> (string \<times> history) list \<Rightarrow> bool" where
  "opens td i es \<longleftrightarrow> in_progress_start (walk td i es init_state) \<noteq> None
      \<and> in_progress_end (walk td i es init_state) = None
      \<and> issue_status i = Some ''In Progress''"

definition falls_back ::
  "(string \<Rightarrow> int) \<Rightarrow> issue \<Rightarrow> (string \<times> history) list \<Rightarrow> string set \<Rightarrow> bool" where
  "falls_back td i es seen \<longleftrightarrow>
     issue_status i = Some ''In Progress'' \<and> issue_key i \<notin> seen \<and> \<not> opens td i es"

text \<open>
  The intervals an issue gets from its changelog (the closed ones of the walk, then the
  still-open one), and the interval the fallback block appends.
\<close>

definition explicit_intervals ::
  "(string \<Rightarrow> int) \<Rightarrow> int \<Rightarrow> issue \<Rightarrow> (string \<times> history) list \<Rightarrow> wip_record list" where
  "explicit_intervals td end_date i es =
     wip_records (walk td i es init_state)
     @ (if opens td i es
        then [mk_record i (the (in_progress_start (walk td i es init_state))) end_date]
        else [])"

definition fallback_interval :: "(string \<Rightarrow> int) \<Rightarrow> int \<Rightarrow> issue \<Rightarrow> wip_record" where
  "fallback_interval td end_date i =
     mk_record i (max (td (issue_created i)) (end_date - 30 * DAY)) end_date"

text \<open>
  What one issue record contributes to the interval list of a batch that the extraction
  returns on: its intervals from the changelog, then the fallback interval when the flag
  says that the fallback block ran for it.
\<close>

definition entries_of :: "issue \<Rightarrow> (string \<times> history) list" where
  "entries_of i = (case sorted_changelog (issue_histories i) of Inl e \<Rightarrow> [] | Inr es \<Rightarrow> es)"

definition contribution ::
  "(string \<Rightarrow> int) \<Rightarrow> int \<Rightarrow> issue \<times> bool \<Rightarrow> wip_record list" where
  "contribution td end_date ib =
     explicit_intervals td end_date (fst ib) (entries_of (fst ib))
     @ (if snd ib then [fallback_interval td end_date (fst ib)] else [])"

text \<open>
  The invariant of the walk at an entry stamped \<open>t\<close>: the intervals so far are well
  ordered and the entry pointer, when set, is not after \<open>t\<close>.
\<close>

definition walk_ok :: "int \<Rightarrow> pstate \<Rightarrow> bool" where
  "walk_ok t st \<longleftrightarrow>
     list_all (\<lambda>r. wip_start r \<le> wip_end r) (wip_records st)
     \<and> (case in_progress_start st of None \<Rightarrow> True | Some s \<Rightarrow> s \<le> t)"

text \<open>
  \<open>time_ordered td hs\<close>: on the timestamps of the changelog \<open>hs\<close>, the order of the strings
  is the order of the instants they denote.
\<close>

definition time_ordered :: "(string \<Rightarrow> int) \<Rightarrow> history list \<Rightarrow> bool" where
  "time_ordered td hs \<longleftrightarrow>
     (\<forall>h1\<in>set hs. \<forall>h2\<in>set hs. \<forall>k1 k2.
        created h1 = Some k1 \<and> created h2 = Some k2 \<and> k1 \<le> k2 \<longrightarrow> td k1 \<le> td k2)"

text \<open>
  The invariant of the fallback's deduplication: no key has two diagnostic entries, and
  every key with a diagnostic entry is in \<^verbatim>\<open>seen_keys\<close>.
\<close>

definition dedup_ok :: "pstate \<Rightarrow> bool" where
  "dedup_ok st \<longleftrightarrow> distinct (map fst (missing_details st))
      \<and> fst ` set (missing_details st) \<subseteq> seen_keys st"

text \<open>
  \<open>day_instant now days_lookback k\<close> is entry \<open>k\<close> of the index of the daily series, and
  \<open>covers r day\<close> is the test \<^verbatim>\<open>start <= day <= end\<close> of its inner loop.
\<close>

definition day_instant :: "int \<Rightarrow> int \<Rightarrow> int \<Rightarrow> int" where
  "day_instant now days_lookback k = end_of_day now - days_lookback * DAY + k * DAY"

definition covers :: "wip_record \<Rightarrow> int \<Rightarrow> bool" where
  "covers r day \<longleftrightarrow> wip_start r \<le> day \<and> day \<le> wip_end r"

section \<open>Fixtures\<close>

text \<open>
  The instant of a timestamp string in the tracker's format
  \<^verbatim>\<open>YYYY-MM-DDTHH:MM:SS.mmm+HHMM\<close>, as \<^verbatim>\<open>pd.to_datetime(s, utc=True)\<close> reads it. It
  instantiates \<open>to_datetime\<close> in the examples, on strings of that format only.
\<close>

definition digits :: "string \<Rightarrow> int" where
  "digits s = foldl (\<lambda>n c. 10 * n + (int (of_char c) - 48)) 0 s"

definition days_from_civil :: "int \<Rightarrow> int \<Rightarrow> int \<Rightarrow> int" where
  "days_from_civil y m d =
     (let y' = (if m \<le> 2 then y - 1 else y);
          era = y' div 400;
          yoe = y' - era * 400;
          doy = (153 * (if m > 2 then m - 3 else m + 9) + 2) div 5 + d - 1;
          doe = yoe * 365 + yoe div 4 - yoe div 100 + doy
      in era * 146097 + doe - 719468)"

definition jira_time :: "string \<Rightarrow> int" where
  "jira_time s =
     (let days = days_from_civil (digits (take 4 s)) (digits (take 2 (drop 5 s)))
                   (digits (take 2 (drop 8 s)));
          secs = ((days * 24 + digits (take 2 (drop 11 s))) * 60
                    + digits (take 2 (drop 14 s))) * 60 + digits (take 2 (drop 17 s));
          offset = (digits (take 2 (drop 24 s)) * 60 + digits (take 2 (drop 26 s))) * 60
      in (secs - (if take 1 (drop 23 s) = ''-'' then - offset else offset)) * 1000000000
           + digits (take 3 (drop 20 s)) * 1000000)"

text \<open>Changelog entries with one status item: entering and leaving the tracked status.\<close>

definition enter_at :: "string \<Rightarrow> history" where
  "enter_at k = \<lparr>created = Some k,
     items = [\<lparr>item_field = Some ''status'', item_fromString = Some ''To Do'',
               item_toString = Some ''In Progress''\<rparr>]\<rparr>"

definition leave_at :: "string \<Rightarrow> history" where
  "leave_at k = \<lparr>created = Some k,
     items = [\<lparr>item_field = Some ''status'', item_fromString = Some ''In Progress'',
               item_toString = Some ''Done''\<rparr>]\<rparr>"

definition plain_issue :: "string \<Rightarrow> string option \<Rightarrow> string \<Rightarrow> history list \<Rightarrow> issue" where
  "plain_issue k status c hs =
     \<lparr>issue_key = k, issue_summary = ''s'', issue_assignee = None, issue_status = status,
      issue_created = c, issue_histories = hs\<rparr>"

definition interval :: "string \<Rightarrow> int \<Rightarrow> int \<Rightarrow> wip_record" where
  "interval k s e =
     \<lparr>wip_key = k, wip_summary = ''s'', wip_assignee = None, wip_start = s, wip_end = e\<rparr>"

section \<open>Structure of the extraction loop\<close>

lemma entry_keys_Inl: "(\<exists>e. entry_keys hs = Inl e) \<longleftrightarrow> None \<in> created ` set hs"
  by (induction hs) (auto split: option.splits sum.splits)

lemma entry_keys_Inr:
  "entry_keys hs = Inr ths \<Longrightarrow> map snd ths = hs \<and> map (Some \<circ> fst) ths = map created hs"
  by (induction hs arbitrary: ths) (auto split: option.splits sum.splits)

lemma sorted_changelog_Inl: "(\<exists>e. sorted_changelog hs = Inl e) \<longleftrightarrow> None \<in> created ` set hs"
  using entry_keys_Inl [of hs] by (auto simp: sorted_changelog_def split: sum.splits)

lemma sorted_changelog_Inr:
  assumes "sorted_changelog hs = Inr es"
  shows "sorted (map fst es)" and "Some ` fst ` set es = created ` set hs"
proof -
  from assms obtain ths where t: "entry_keys hs = Inr ths" and e: "es = sort_key fst ths"
    by (auto simp: sorted_changelog_def split: sum.splits)
  show "sorted (map fst es)" by (simp add: e)
  from entry_keys_Inr [OF t] have "set (map (Some \<circ> fst) ths) = set (map created hs)" by simp
  then show "Some ` fst ` set es = created ` set hs" by (simp add: e image_comp)
qed

lemma item_step_rebase: "item_step i t it (rebase st pre S M) = rebase (item_step i t it st) pre S M"
  by (auto simp: item_step_def rebase_def)

lemma items_rebase:
  "fold (item_step i t) its (rebase st pre S M) = rebase (fold (item_step i t) its st) pre S M"
  by (induction its arbitrary: st) (simp_all add: item_step_rebase)

lemma entries_rebase:
  "fold (entry_step td i) es (rebase st pre S M) = rebase (fold (entry_step td i) es st) pre S M"
  by (induction es arbitrary: st) (simp_all add: entry_step_def items_rebase)

lemma walk_rebase:
  "walk td i es st = rebase (walk td i es init_state) (wip_records st) (seen_keys st) (missing_details st)"
proof -
  have "st\<lparr>in_progress_start := None, in_progress_end := None\<rparr>
        = rebase (init_state\<lparr>in_progress_start := None, in_progress_end := None\<rparr>) (wip_records st) (seen_keys st) (missing_details st)"
    by (simp add: rebase_def init_state_def)
  then show ?thesis by (simp add: walk_def entries_rebase)
qed

lemma issue_step_Inr:
  assumes "issue_step td e i st = Inr st'"
  obtains es where "sorted_changelog (issue_histories i) = Inr es"
    and "wip_records st' = wip_records st @ explicit_intervals td e i es
          @ (if falls_back td i es (seen_keys st) then [fallback_interval td e i] else [])"
    and "missing_details st' = missing_details st
          @ (if falls_back td i es (seen_keys st) then [(issue_key i, issue_summary i)] else [])"
    and "seen_keys st' = seen_keys st
          \<union> (if opens td i es \<or> falls_back td i es (seen_keys st) then {issue_key i} else {})"
proof -
  from assms obtain es where es: "sorted_changelog (issue_histories i) = Inr es"
    and st': "st' = fallback td e i (still_in_progress e i (walk td i es st))"
    by (auto simp: issue_step_def split: sum.splits)
  note w = walk_rebase [of td i es st]
  note defs = fallback_def still_in_progress_def rebase_def opens_def falls_back_def
    explicit_intervals_def fallback_interval_def
  show ?thesis
  proof (rule that [OF es])
    show "wip_records st' = wip_records st @ explicit_intervals td e i es
          @ (if falls_back td i es (seen_keys st) then [fallback_interval td e i] else [])"
      unfolding st' w by (auto simp: defs)
    show "missing_details st' = missing_details st
          @ (if falls_back td i es (seen_keys st) then [(issue_key i, issue_summary i)] else [])"
      unfolding st' w by (auto simp: defs)
    show "seen_keys st' = seen_keys st
          \<union> (if opens td i es \<or> falls_back td i es (seen_keys st) then {issue_key i} else {})"
      unfolding st' w by (auto simp: defs)
  qed
qed

lemma issue_step_Inl:
  "(\<exists>x. issue_step td e i st = Inl x) \<longleftrightarrow> None \<in> created ` set (issue_histories i)"
  using sorted_changelog_Inl [of "issue_histories i"]
  by (auto simp: issue_step_def split: sum.splits)

lemma parse_loop_Inl:
  "(\<exists>x. parse_loop td e is st = Inl x) \<longleftrightarrow> (\<exists>i\<in>set is. None \<in> created ` set (issue_histories i))"
proof (induction "is" arbitrary: st)
  case Nil
  then show ?case by simp
next
  case (Cons i "is")
  show ?case
  proof (cases "issue_step td e i st")
    case (Inl x)
    with issue_step_Inl [of td e i st] show ?thesis by auto
  next
    case (Inr st')
    with issue_step_Inl [of td e i st] have "None \<notin> created ` set (issue_histories i)" by auto
    with Inr Cons.IH [of st'] show ?thesis by auto
  qed
qed

lemma parse_loop_append:
  "parse_loop td e (xs @ ys) st =
     (case parse_loop td e xs st of Inl x \<Rightarrow> Inl x | Inr st' \<Rightarrow> parse_loop td e ys st')"
  by (induction xs arbitrary: st) (auto split: sum.splits)

section \<open>The walk keeps intervals well ordered\<close>

lemma walk_ok_mono: "walk_ok t st \<Longrightarrow> t \<le> t' \<Longrightarrow> walk_ok t' st"
  by (auto simp: walk_ok_def split: option.splits)

lemma item_step_ok: "walk_ok t st \<Longrightarrow> walk_ok t (item_step i t it st)"
  by (auto simp: walk_ok_def item_step_def mk_record_def split: option.splits)

lemma items_ok: "walk_ok t st \<Longrightarrow> walk_ok t (fold (item_step i t) its st)"
  by (induction its arbitrary: st) (simp_all add: item_step_ok)

lemma entries_ok:
  "sorted (map (\<lambda>x. td (fst x)) es) \<Longrightarrow> \<forall>k\<in>fst ` set es. td k \<le> e \<Longrightarrow>
   \<forall>t\<in>insert e (td ` fst ` set es). walk_ok t st \<Longrightarrow>
     walk_ok e (fold (entry_step td i) es st)"
proof (induction es arbitrary: st)
  case Nil
  then show ?case by simp
next
  case (Cons x xs)
  let ?st1 = "entry_step td i x st"
  from Cons.prems(3) have "walk_ok (td (fst x)) st" by simp
  then have ok1: "walk_ok (td (fst x)) ?st1" by (simp add: entry_step_def items_ok)
  from Cons.prems(1) have le: "\<forall>k\<in>fst ` set xs. td (fst x) \<le> td k" by auto
  from Cons.prems(2) have xe: "td (fst x) \<le> e" by simp
  have "\<forall>t\<in>insert e (td ` fst ` set xs). walk_ok t ?st1"
    using ok1 le xe walk_ok_mono by blast
  moreover from Cons.prems(1) have "sorted (map (\<lambda>x. td (fst x)) xs)" by simp
  moreover from Cons.prems(2) have "\<forall>k\<in>fst ` set xs. td k \<le> e" by simp
  ultimately have "walk_ok e (fold (entry_step td i) xs ?st1)" by (rule Cons.IH [rotated 2])
  then show ?case by simp
qed

lemma walk_init_ok:
  assumes "sorted (map (\<lambda>x. td (fst x)) es)" and "\<forall>k\<in>fst ` set es. td k \<le> e"
  shows "walk_ok e (walk td i es init_state)"
  unfolding walk_def
  by (rule entries_ok [OF assms]) (simp add: walk_ok_def init_state_def)

lemma sorted_by_time:
  assumes "sorted_changelog hs = Inr es" and "time_ordered td hs"
  shows "sorted (map (\<lambda>x. td (fst x)) es)"
proof -
  from sorted_changelog_Inr [OF assms(1)]
  have s: "sorted (map fst es)" and c: "Some ` fst ` set es = created ` set hs"
    by simp_all
  have keys: "\<exists>h\<in>set hs. created h = Some (fst x)" if "x \<in> set es" for x
  proof -
    from that have "Some (fst x) \<in> Some ` fst ` set es" by blast
    with c have "Some (fst x) \<in> created ` set hs" by simp
    then show ?thesis by force
  qed
  have m: "td (fst x) \<le> td (fst y)" if "x \<in> set es" "y \<in> set es" "fst x \<le> fst y" for x y
    using keys [OF that(1)] keys [OF that(2)] that(3) assms(2)
    unfolding time_ordered_def by blast
  from s have "sorted_wrt (\<lambda>x y. fst x \<le> fst y) es"
    by (simp add: sorted_wrt_map)
  then have "sorted_wrt (\<lambda>x y. td (fst x) \<le> td (fst y)) es"
    by (rule sorted_wrt_mono_rel [rotated]) (rule m)
  then show ?thesis by (simp add: sorted_wrt_map)
qed

lemma explicit_intervals_ok:
  assumes "sorted_changelog (issue_histories i) = Inr es"
    and "\<forall>h\<in>set (issue_histories i). \<forall>k. created h = Some k \<longrightarrow> td k \<le> e"
    and "time_ordered td (issue_histories i)"
  shows "list_all (\<lambda>r. wip_start r \<le> wip_end r) (explicit_intervals td e i es)"
proof -
  from sorted_changelog_Inr [OF assms(1)]
  have c: "Some ` fst ` set es = created ` set (issue_histories i)"
    by simp
  have "\<forall>k\<in>fst ` set es. td k \<le> e"
  proof
    fix k assume "k \<in> fst ` set es"
    then have "Some k \<in> created ` set (issue_histories i)" using c by blast
    then show "td k \<le> e" using assms(2) by (metis imageE)
  qed
  from walk_init_ok [OF sorted_by_time [OF assms(1,3)] this]
  have "walk_ok e (walk td i es init_state)" .
  then show ?thesis
    by (auto simp: explicit_intervals_def walk_ok_def opens_def mk_record_def split: option.splits)
qed

lemma issue_step_ok:
  assumes "issue_step td e i st = Inr st'"
    and "td (issue_created i) \<le> e"
    and "\<forall>h\<in>set (issue_histories i). \<forall>k. created h = Some k \<longrightarrow> td k \<le> e"
    and "time_ordered td (issue_histories i)"
    and "list_all (\<lambda>r. wip_start r \<le> wip_end r) (wip_records st)"
  shows "list_all (\<lambda>r. wip_start r \<le> wip_end r) (wip_records st')"
proof -
  from assms(1) obtain es where es: "sorted_changelog (issue_histories i) = Inr es"
    and w: "wip_records st' = wip_records st @ explicit_intervals td e i es
          @ (if falls_back td i es (seen_keys st) then [fallback_interval td e i] else [])"
    by (rule issue_step_Inr)
  have "wip_start (fallback_interval td e i) \<le> wip_end (fallback_interval td e i)"
    using assms(2) by (simp add: fallback_interval_def mk_record_def DAY_def)
  with explicit_intervals_ok [OF es assms(3,4)] assms(5) show ?thesis
    unfolding w by simp
qed

lemma parse_loop_ok:
  "parse_loop td e is st = Inr st' \<Longrightarrow>
   \<forall>i\<in>set is. td (issue_created i) \<le> e
      \<and> (\<forall>h\<in>set (issue_histories i). \<forall>k. created h = Some k \<longrightarrow> td k \<le> e)
      \<and> time_ordered td (issue_histories i) \<Longrightarrow>
   list_all (\<lambda>r. wip_start r \<le> wip_end r) (wip_records st) \<Longrightarrow>
     list_all (\<lambda>r. wip_start r \<le> wip_end r) (wip_records st')"
proof (induction "is" arbitrary: st)
  case Nil
  then show ?case by simp
next
  case (Cons i "is")
  from Cons.prems(1) obtain st1 where s1: "issue_step td e i st = Inr st1"
    and rest: "parse_loop td e is st1 = Inr st'"
    by (auto split: sum.splits)
  from Cons.prems(2) have "td (issue_created i) \<le> e"
    and "\<forall>h\<in>set (issue_histories i). \<forall>k. created h = Some k \<longrightarrow> td k \<le> e"
    and "time_ordered td (issue_histories i)" by simp_all
  from issue_step_ok [OF s1 this Cons.prems(3)]
  have "list_all (\<lambda>r. wip_start r \<le> wip_end r) (wip_records st1)" .
  with Cons.IH [OF rest] Cons.prems(2) show ?case by simp
qed

section \<open>The set of seen keys\<close>

lemma issue_step_dedup:
  assumes "issue_step td e i st = Inr st'" and "dedup_ok st"
  shows "dedup_ok st'"
proof -
  from assms(1) obtain es where
    m: "missing_details st' = missing_details st
          @ (if falls_back td i es (seen_keys st) then [(issue_key i, issue_summary i)] else [])"
    and k: "seen_keys st' = seen_keys st
          \<union> (if opens td i es \<or> falls_back td i es (seen_keys st) then {issue_key i} else {})"
    by (rule issue_step_Inr)
  show ?thesis
  proof (cases "falls_back td i es (seen_keys st)")
    case True
    then have "issue_key i \<notin> seen_keys st" by (simp add: falls_back_def)
    with assms(2) True show ?thesis unfolding dedup_ok_def m k by auto
  next
    case False
    with assms(2) show ?thesis unfolding dedup_ok_def m k by auto
  qed
qed

lemma parse_loop_dedup:
  "parse_loop td e is st = Inr st' \<Longrightarrow> dedup_ok st \<Longrightarrow> dedup_ok st'"
proof (induction "is" arbitrary: st)
  case Nil
  then show ?case by simp
next
  case (Cons i "is")
  from Cons.prems(1) obtain st1 where s1: "issue_step td e i st = Inr st1"
    and rest: "parse_loop td e is st1 = Inr st'"
    by (auto split: sum.splits)
  from Cons.IH [OF rest issue_step_dedup [OF s1 Cons.prems(2)]] show ?case .
qed

lemma issue_step_seen_mono: "issue_step td e i st = Inr st' \<Longrightarrow> seen_keys st \<subseteq> seen_keys st'"
  by (erule issue_step_Inr) simp

lemma parse_loop_seen_mono: "parse_loop td e is st = Inr st' \<Longrightarrow> seen_keys st \<subseteq> seen_keys st'"
proof (induction "is" arbitrary: st)
  case Nil
  then show ?case by simp
next
  case (Cons i "is")
  from Cons.prems obtain st1 where s1: "issue_step td e i st = Inr st1"
    and rest: "parse_loop td e is st1 = Inr st'"
    by (auto split: sum.splits)
  from issue_step_seen_mono [OF s1] Cons.IH [OF rest] show ?case by blast
qed

lemma parse_loop_seen_subset:
  "parse_loop td e is st = Inr st' \<Longrightarrow> seen_keys st' \<subseteq> seen_keys st \<union> issue_key ` set is"
proof (induction "is" arbitrary: st)
  case Nil
  then show ?case by simp
next
  case (Cons i "is")
  from Cons.prems obtain st1 where s1: "issue_step td e i st = Inr st1"
    and rest: "parse_loop td e is st1 = Inr st'"
    by (auto split: sum.splits)
  from s1 have "seen_keys st1 \<subseteq> insert (issue_key i) (seen_keys st)"
    by (rule issue_step_Inr) (auto split: if_splits)
  with Cons.IH [OF rest] show ?case by auto
qed

lemma issue_step_opens_seen:
  assumes "issue_step td e j st = Inr st'" and "sorted_changelog (issue_histories j) = Inr es"
    and "opens td j es"
  shows "issue_key j \<in> seen_keys st'"
proof -
  from assms(1) obtain es' where es': "sorted_changelog (issue_histories j) = Inr es'"
    and k: "seen_keys st' = seen_keys st
          \<union> (if opens td j es' \<or> falls_back td j es' (seen_keys st) then {issue_key j} else {})"
    by (rule issue_step_Inr)
  from es' assms(2) have "es' = es" by simp
  with k assms(3) show ?thesis by simp
qed

lemma parse_loop_opens_seen:
  "parse_loop td e is st = Inr st' \<Longrightarrow> j \<in> set is \<Longrightarrow>
   sorted_changelog (issue_histories j) = Inr es \<Longrightarrow> opens td j es \<Longrightarrow>
     issue_key j \<in> seen_keys st'"
proof (induction "is" arbitrary: st)
  case Nil
  then show ?case by simp
next
  case (Cons i "is")
  from Cons.prems(1) obtain st1 where s1: "issue_step td e i st = Inr st1"
    and rest: "parse_loop td e is st1 = Inr st'"
    by (auto split: sum.splits)
  show ?case
  proof (cases "j = i")
    case True
    with issue_step_opens_seen [OF _ Cons.prems(3,4)] s1 have "issue_key j \<in> seen_keys st1" by simp
    with parse_loop_seen_mono [OF rest] show ?thesis by blast
  next
    case False
    with Cons.prems(2) have "j \<in> set is" by simp
    from Cons.IH [OF rest this Cons.prems(3,4)] show ?thesis .
  qed
qed

lemma parse_loop_decomp:
  "parse_loop td e is st = Inr st' \<Longrightarrow>
   \<exists>fbs. length fbs = length is
     \<and> wip_records st' = wip_records st @ concat (map (contribution td e) (zip is fbs))
     \<and> missing_details st' = missing_details st
          @ map (\<lambda>ib. (issue_key (fst ib), issue_summary (fst ib))) (filter snd (zip is fbs))
     \<and> distinct (map (\<lambda>ib. issue_key (fst ib)) (filter snd (zip is fbs)))
     \<and> (\<forall>ib\<in>set (filter snd (zip is fbs)). issue_key (fst ib) \<notin> seen_keys st)"
proof (induction "is" arbitrary: st)
  case Nil
  then show ?case by simp
next
  case (Cons i "is")
  from Cons.prems obtain st1 where s1: "issue_step td e i st = Inr st1"
    and rest: "parse_loop td e is st1 = Inr st'"
    by (auto split: sum.splits)
  from s1 obtain es where es: "sorted_changelog (issue_histories i) = Inr es"
    and w: "wip_records st1 = wip_records st @ explicit_intervals td e i es
          @ (if falls_back td i es (seen_keys st) then [fallback_interval td e i] else [])"
    and m: "missing_details st1 = missing_details st
          @ (if falls_back td i es (seen_keys st) then [(issue_key i, issue_summary i)] else [])"
    and k: "seen_keys st1 = seen_keys st
          \<union> (if opens td i es \<or> falls_back td i es (seen_keys st) then {issue_key i} else {})"
    by (rule issue_step_Inr)
  from es have eo: "entries_of i = es" by (simp add: entries_of_def)
  from Cons.IH [OF rest] obtain fbs where len: "length fbs = length is"
    and w': "wip_records st' = wip_records st1 @ concat (map (contribution td e) (zip is fbs))"
    and m': "missing_details st' = missing_details st1
          @ map (\<lambda>ib. (issue_key (fst ib), issue_summary (fst ib))) (filter snd (zip is fbs))"
    and d': "distinct (map (\<lambda>ib. issue_key (fst ib)) (filter snd (zip is fbs)))"
    and n': "\<forall>ib\<in>set (filter snd (zip is fbs)). issue_key (fst ib) \<notin> seen_keys st1"
    by blast
  let ?fb = "falls_back td i es (seen_keys st)"
  let ?fbs = "?fb # fbs"
  have 1: "length ?fbs = length (i # is)" using len by simp
  have 2: "wip_records st' = wip_records st @ concat (map (contribution td e) (zip (i # is) ?fbs))"
    by (simp add: w' w contribution_def eo)
  have 3: "missing_details st' = missing_details st
          @ map (\<lambda>ib. (issue_key (fst ib), issue_summary (fst ib))) (filter snd (zip (i # is) ?fbs))"
    by (simp add: m' m)
  have sub: "seen_keys st \<subseteq> seen_keys st1" using k by auto
  have 5: "\<forall>ib\<in>set (filter snd (zip (i # is) ?fbs)). issue_key (fst ib) \<notin> seen_keys st"
    using n' sub by (auto simp: falls_back_def)
  have 4: "distinct (map (\<lambda>ib. issue_key (fst ib)) (filter snd (zip (i # is) ?fbs)))"
  proof (cases ?fb)
    case True
    with k have "issue_key i \<in> seen_keys st1" by simp
    with n' have "issue_key i \<notin> (\<lambda>ib. issue_key (fst ib)) ` set (filter snd (zip is fbs))"
      by (metis (mono_tags, lifting) imageE)
    with d' True show ?thesis by simp
  next
    case False
    with d' show ?thesis by simp
  qed
  from 1 2 3 4 5 show ?case by blast
qed

section \<open>The month query and the daily series\<close>

lemma matched_row_of_inj: "matched_row_of r = matched_row_of r' \<Longrightarrow> r = r'"
  by (cases r, cases r') (simp add: matched_row_of_def)

lemma fold_count_record:
  "fold count_record recs cs = map (\<lambda>(d, c). (d, c + length (filter (\<lambda>r. covers r d) recs))) cs"
proof (induction recs arbitrary: cs)
  case Nil
  then show ?case by simp
next
  case (Cons r recs)
  show ?case by (simp add: Cons.IH) (auto simp: count_record_def covers_def)
qed

lemma DAY_pos: "0 < DAY"
  by (simp add: DAY_def)

lemma census_range:
  "date_range (end_of_day now - L * DAY) (end_of_day now) = map (day_instant now L) [0..L]"
  using DAY_pos by (simp add: date_range_def day_instant_def)

lemma daily_wip_counts_eq:
  "daily_wip_counts now L recs =
     map (\<lambda>k. (day_instant now L k, length (filter (\<lambda>r. covers r (day_instant now L k)) recs))) [0..L]"
  by (simp add: daily_wip_counts_def Let_def census_range fold_count_record o_def)

lemma sum_list_zero: "(\<And>x. x \<in> set xs \<Longrightarrow> f x = (0::nat)) \<Longrightarrow> sum_list (map f xs) = 0"
  by (induction xs) simp_all

lemma three_days:
  assumes "0 \<le> a" "a + 2 \<le> L"
    and "day_instant now L (a - 1) < wip_start r" "wip_start r \<le> day_instant now L a"
    and "day_instant now L (a + 2) \<le> wip_end r" "wip_end r < day_instant now L (a + 3)"
  shows "sum_list (map snd (daily_wip_counts now L [r])) = 3"
proof -
  let ?f = "\<lambda>k. if covers r (day_instant now L k) then 1 else (0::nat)"
  have s: "sum_list (map snd (daily_wip_counts now L [r])) = sum_list (map ?f [0..L])"
  proof -
    have "\<And>k. length (filter (\<lambda>r. covers r (day_instant now L k)) [r]) = ?f k" by simp
    then show ?thesis by (simp only: daily_wip_counts_eq map_map o_def snd_conv)
  qed
  have split: "[0..L] = [0..a - 1] @ [a, a + 1, a + 2] @ [a + 3..L]"
  proof -
    have "[0..L] = [0..a - 1] @ [a..L]" using assms(1,2) by (intro upto_split1) simp_all
    also have "[a..L] = [a..a + 2] @ [a + 2 + 1..L]" using assms(2) by (intro upto_split2) simp_all
    also have "[a..a + 2] = [a, a + 1, a + 2]" by (simp add: upto_rec1)
    finally show ?thesis by (simp add: add.commute)
  qed
  have lo: "sum_list (map ?f [0..a - 1]) = 0"
  proof (rule sum_list_zero)
    fix k assume "k \<in> set [0..a - 1]"
    then have "k \<le> a - 1" by simp
    then have "day_instant now L k \<le> day_instant now L (a - 1)"
      by (simp add: day_instant_def DAY_def)
    with assms(3) show "?f k = 0" by (simp add: covers_def)
  qed
  have hi: "sum_list (map ?f [a + 3..L]) = 0"
  proof (rule sum_list_zero)
    fix k assume "k \<in> set [a + 3..L]"
    then have "a + 3 \<le> k" by simp
    then have "day_instant now L (a + 3) \<le> day_instant now L k"
      by (simp add: day_instant_def DAY_def)
    with assms(6) show "?f k = 0" by (simp add: covers_def)
  qed
  have mid: "?f a = 1" "?f (a + 1) = 1" "?f (a + 2) = 1"
    using assms(4,5) by (simp_all add: covers_def day_instant_def DAY_def)
  have "sum_list (map ?f [0..L]) =
      sum_list (map ?f [0..a - 1]) + (?f a + (?f (a + 1) + (?f (a + 2) + 0)))
      + sum_list (map ?f [a + 3..L])"
    by (simp only: split map_append sum_list_append list.map sum_list.Cons sum_list.Nil add.assoc)
  then have "sum_list (map ?f [0..L]) = 0 + (1 + (1 + (1 + 0))) + 0"
    by (simp only: lo hi mid)
  with s show ?thesis by simp
qed

section \<open>Evaluation\<close>

text \<open>The instants of the timestamp strings of the examples.\<close>

lemma jira_time_values:
  "jira_time ''2024-03-01T08:00:00.000+0000'' = 1709280000000000000"
  "jira_time ''2024-03-02T08:00:00.000+0000'' = 1709366400000000000"
  "jira_time ''2024-03-03T08:00:00.000+0000'' = 1709452800000000000"
  "jira_time ''2024-03-05T08:00:00.000+0000'' = 1709625600000000000"
  "jira_time ''2024-03-10T09:00:00.000+0000'' = 1710061200000000000"
  "jira_time ''2024-03-12T09:00:00.000+0000'' = 1710234000000000000"
  "jira_time ''2024-03-14T09:00:00.000+0000'' = 1710406800000000000"
  "jira_time ''2024-03-20T23:59:59.999+0000'' = 1710979199999000000"
  "jira_time ''2024-03-25T08:00:00.000+0000'' = 1711353600000000000"
  "jira_time ''2024-10-01T08:00:00.000+0200'' = 1727762400000000000"
  "jira_time ''2024-10-27T02:10:00.000+0100'' = 1729991400000000000"
  "jira_time ''2024-10-27T02:30:00.000+0200'' = 1729989000000000000"
  "jira_time ''2024-10-28T23:59:59.999+0100'' = 1730156399999000000"
  by (simp_all add: jira_time_def digits_def days_from_civil_def)

lemmas eval_defs = parse_wip_ranges_def init_state_def issue_step_def sorted_changelog_def walk_def
  still_in_progress_def fallback_def entry_step_def item_step_def enter_at_def leave_at_def
  plain_issue_def interval_def mk_record_def DAY_def jira_time_values

section \<open>Extraction: the specified scenarios\<close>

text \<open>
  C7. An issue with an empty changelog, extracted with observation end \<open>e\<close>, alone or
  after other issues none of which has its key: when its current status is the tracked
  status, the extraction adds exactly one interval, from \<open>max created (e - 30 days)\<close> to
  \<open>e\<close>, and the issue is added to the diagnostic list (which is how the source marks an
  interval as inferred); otherwise it adds no interval and no diagnostic entry.
\<close>

theorem C7_empty_changelog:
  assumes "parse_wip_ranges to_datetime pre e = Inr (w, m)"
    and "issue_histories i = []"
    and "issue_key i \<notin> issue_key ` set pre"
  shows "parse_wip_ranges to_datetime (pre @ [i]) e =
       (if issue_status i = Some ''In Progress''
        then Inr (w @ [mk_record i (max (to_datetime (issue_created i)) (e - 30 * DAY)) e],
                  m @ [(issue_key i, issue_summary i)])
        else Inr (w, m))"
proof -
  from assms(1) obtain st where l: "parse_loop to_datetime e pre init_state = Inr st"
    and w: "w = wip_records st" and m: "m = missing_details st"
    by (auto simp: parse_wip_ranges_def split: sum.splits)
  from parse_loop_seen_subset [OF l] assms(3) have "issue_key i \<notin> seen_keys st"
    by (auto simp: init_state_def)
  then show ?thesis
    by (simp add: parse_wip_ranges_def parse_loop_append l w m issue_step_def assms(2)
        sorted_changelog_def walk_def still_in_progress_def fallback_def)
qed

theorem C7_empty_changelog_witness:
  "parse_wip_ranges jira_time
       [plain_issue ''B'' (Some ''Done'') ''2024-03-01T08:00:00.000+0000''
          [enter_at ''2024-03-10T09:00:00.000+0000'', leave_at ''2024-03-12T09:00:00.000+0000'']]
       (jira_time ''2024-03-20T23:59:59.999+0000'')
     = Inr ([interval ''B'' (jira_time ''2024-03-10T09:00:00.000+0000'')
                            (jira_time ''2024-03-12T09:00:00.000+0000'')], [])
   \<and> parse_wip_ranges jira_time
       ([plain_issue ''B'' (Some ''Done'') ''2024-03-01T08:00:00.000+0000''
          [enter_at ''2024-03-10T09:00:00.000+0000'', leave_at ''2024-03-12T09:00:00.000+0000'']]
        @ [plain_issue ''A'' (Some ''In Progress'') ''2024-03-05T08:00:00.000+0000'' []])
       (jira_time ''2024-03-20T23:59:59.999+0000'')
     = Inr ([interval ''B'' (jira_time ''2024-03-10T09:00:00.000+0000'')
                            (jira_time ''2024-03-12T09:00:00.000+0000''),
             interval ''A'' (jira_time ''2024-03-05T08:00:00.000+0000'')
                            (jira_time ''2024-03-20T23:59:59.999+0000'')],
            [(''A'', ''s'')])
   \<and> parse_wip_ranges jira_time
       ([plain_issue ''B'' (Some ''Done'') ''2024-03-01T08:00:00.000+0000''
          [enter_at ''2024-03-10T09:00:00.000+0000'', leave_at ''2024-03-12T09:00:00.000+0000'']]
        @ [plain_issue ''A'' (Some ''Done'') ''2024-03-05T08:00:00.000+0000'' []])
       (jira_time ''2024-03-20T23:59:59.999+0000'')
     = Inr ([interval ''B'' (jira_time ''2024-03-10T09:00:00.000+0000'')
                            (jira_time ''2024-03-12T09:00:00.000+0000'')], [])"
proof -
  let ?pre = "[plain_issue ''B'' (Some ''Done'') ''2024-03-01T08:00:00.000+0000''
          [enter_at ''2024-03-10T09:00:00.000+0000'', leave_at ''2024-03-12T09:00:00.000+0000'']]"
  let ?e = "jira_time ''2024-03-20T23:59:59.999+0000''"
  let ?a1 = "plain_issue ''A'' (Some ''In Progress'') ''2024-03-05T08:00:00.000+0000'' []"
  let ?a2 = "plain_issue ''A'' (Some ''Done'') ''2024-03-05T08:00:00.000+0000'' []"
  have h1: "parse_wip_ranges jira_time ?pre ?e
     = Inr ([interval ''B'' (jira_time ''2024-03-10T09:00:00.000+0000'')
                            (jira_time ''2024-03-12T09:00:00.000+0000'')], [])"
    by (simp add: eval_defs)
  have h2: "issue_histories ?a1 = []" "issue_histories ?a2 = []"
    by (simp_all add: plain_issue_def)
  have h3: "issue_key ?a1 \<notin> issue_key ` set ?pre" "issue_key ?a2 \<notin> issue_key ` set ?pre"
    by (simp_all add: plain_issue_def)
  from C7_empty_changelog [OF h1 h2(1) h3(1)] C7_empty_changelog [OF h1 h2(2) h3(2)] h1
  show ?thesis
    by (simp add: plain_issue_def interval_def mk_record_def DAY_def jira_time_values)
qed

text \<open>
  C1. An issue whose changelog is enter at \<open>t1\<close>, leave at \<open>t2\<close>, enter at \<open>t3\<close> (with
  timestamp strings \<open>k1\<close>, \<open>k2\<close>, \<open>k3\<close> in this order) and whose current status is the
  tracked status should give the intervals \<open>[t1, t2]\<close> and \<open>[t3, t4]\<close> and no diagnostic
  entry. The source gives \<open>[t1, t2]\<close> and then the fallback interval from
  \<open>max created (t4 - 30 days)\<close> to \<open>t4\<close>, with a diagnostic entry: the leave at \<open>t2\<close> has
  set \<^verbatim>\<open>in_progress_end\<close>, which the second enter does not reset, so the test
  \<^verbatim>\<open>not in_progress_end\<close> of the still-in-progress block fails.
\<close>

theorem C1_reentry_gets_fallback:
  "k1 \<le> k2 \<Longrightarrow> k2 \<le> k3 \<Longrightarrow> issue_status i = Some ''In Progress'' \<Longrightarrow>
   issue_histories i = [enter_at k1, leave_at k2, enter_at k3] \<Longrightarrow>
     parse_wip_ranges to_datetime [i] t4 =
       Inr ([mk_record i (to_datetime k1) (to_datetime k2),
             mk_record i (max (to_datetime (issue_created i)) (t4 - 30 * DAY)) t4],
            [(issue_key i, issue_summary i)])"
  by (simp add: parse_wip_ranges_def init_state_def issue_step_def sorted_changelog_def walk_def
      still_in_progress_def fallback_def entry_step_def item_step_def enter_at_def leave_at_def)

theorem C1_reentry_gets_fallback_witness:
  "''2024-03-10T09:00:00.000+0000'' \<le> ''2024-03-12T09:00:00.000+0000''
   \<and> ''2024-03-12T09:00:00.000+0000'' \<le> ''2024-03-14T09:00:00.000+0000''
   \<and> parse_wip_ranges jira_time
        [plain_issue ''A'' (Some ''In Progress'') ''2024-03-01T08:00:00.000+0000''
           [enter_at ''2024-03-10T09:00:00.000+0000'', leave_at ''2024-03-12T09:00:00.000+0000'',
            enter_at ''2024-03-14T09:00:00.000+0000'']]
        (jira_time ''2024-03-20T23:59:59.999+0000'') =
       Inr ([interval ''A'' (jira_time ''2024-03-10T09:00:00.000+0000'')
                            (jira_time ''2024-03-12T09:00:00.000+0000''),
             interval ''A'' (jira_time ''2024-03-01T08:00:00.000+0000'')
                            (jira_time ''2024-03-20T23:59:59.999+0000'')],
            [(''A'', ''s'')])"
  using C1_reentry_gets_fallback
    [of "''2024-03-10T09:00:00.000+0000''" "''2024-03-12T09:00:00.000+0000''"
        "''2024-03-14T09:00:00.000+0000''"
        "plain_issue ''A'' (Some ''In Progress'') ''2024-03-01T08:00:00.000+0000''
           [enter_at ''2024-03-10T09:00:00.000+0000'', leave_at ''2024-03-12T09:00:00.000+0000'',
            enter_at ''2024-03-14T09:00:00.000+0000'']"
        jira_time "jira_time ''2024-03-20T23:59:59.999+0000''"]
  by (simp add: plain_issue_def interval_def mk_record_def DAY_def jira_time_values)

text \<open>
  C2, as the source has it. One pass of the loop over an issue appends the issue's
  intervals from the changelog and then at most one fallback interval, together with one
  diagnostic entry. The fallback is appended exactly when the current status is the
  tracked status, the key is not among the keys seen so far in the batch, and the
  still-in-progress block has appended no open interval for this issue (\<open>falls_back\<close>).
  Closed intervals that the walk has appended do not prevent it.
\<close>

theorem C2_fallback_per_issue:
  assumes "issue_step to_datetime e i st = Inr st'"
    and "sorted_changelog (issue_histories i) = Inr es"
  shows "wip_records st' = wip_records st @ explicit_intervals to_datetime e i es
            @ (if falls_back to_datetime i es (seen_keys st)
               then [fallback_interval to_datetime e i] else [])
     \<and> missing_details st' = missing_details st
            @ (if falls_back to_datetime i es (seen_keys st)
               then [(issue_key i, issue_summary i)] else [])"
proof -
  from assms(1) obtain es' where es': "sorted_changelog (issue_histories i) = Inr es'"
    and w: "wip_records st' = wip_records st @ explicit_intervals to_datetime e i es'
          @ (if falls_back to_datetime i es' (seen_keys st)
             then [fallback_interval to_datetime e i] else [])"
    and m: "missing_details st' = missing_details st
          @ (if falls_back to_datetime i es' (seen_keys st)
             then [(issue_key i, issue_summary i)] else [])"
    by (rule issue_step_Inr)
  from es' assms(2) have "es' = es" by simp
  with w m show ?thesis by blast
qed

theorem C2_fallback_per_issue_witness:
  "explicit_intervals jira_time (jira_time ''2024-03-20T23:59:59.999+0000'')
      (plain_issue ''A'' (Some ''In Progress'') ''2024-03-01T08:00:00.000+0000''
         [enter_at ''2024-03-10T09:00:00.000+0000'', leave_at ''2024-03-12T09:00:00.000+0000''])
      [(''2024-03-10T09:00:00.000+0000'', enter_at ''2024-03-10T09:00:00.000+0000''),
       (''2024-03-12T09:00:00.000+0000'', leave_at ''2024-03-12T09:00:00.000+0000'')]
     = [interval ''A'' (jira_time ''2024-03-10T09:00:00.000+0000'')
                       (jira_time ''2024-03-12T09:00:00.000+0000'')]
   \<and> falls_back jira_time
      (plain_issue ''A'' (Some ''In Progress'') ''2024-03-01T08:00:00.000+0000''
         [enter_at ''2024-03-10T09:00:00.000+0000'', leave_at ''2024-03-12T09:00:00.000+0000''])
      [(''2024-03-10T09:00:00.000+0000'', enter_at ''2024-03-10T09:00:00.000+0000''),
       (''2024-03-12T09:00:00.000+0000'', leave_at ''2024-03-12T09:00:00.000+0000'')]
      (seen_keys init_state)
   \<and> wip_records
       (fallback jira_time (jira_time ''2024-03-20T23:59:59.999+0000'')
         (plain_issue ''A'' (Some ''In Progress'') ''2024-03-01T08:00:00.000+0000''
            [enter_at ''2024-03-10T09:00:00.000+0000'', leave_at ''2024-03-12T09:00:00.000+0000''])
         (still_in_progress (jira_time ''2024-03-20T23:59:59.999+0000'')
           (plain_issue ''A'' (Some ''In Progress'') ''2024-03-01T08:00:00.000+0000''
              [enter_at ''2024-03-10T09:00:00.000+0000'', leave_at ''2024-03-12T09:00:00.000+0000''])
           (walk jira_time
              (plain_issue ''A'' (Some ''In Progress'') ''2024-03-01T08:00:00.000+0000''
                 [enter_at ''2024-03-10T09:00:00.000+0000'',
                  leave_at ''2024-03-12T09:00:00.000+0000''])
              [(''2024-03-10T09:00:00.000+0000'', enter_at ''2024-03-10T09:00:00.000+0000''),
               (''2024-03-12T09:00:00.000+0000'', leave_at ''2024-03-12T09:00:00.000+0000'')]
              init_state)))
     = [interval ''A'' (jira_time ''2024-03-10T09:00:00.000+0000'')
                       (jira_time ''2024-03-12T09:00:00.000+0000''),
        interval ''A'' (jira_time ''2024-03-01T08:00:00.000+0000'')
                       (jira_time ''2024-03-20T23:59:59.999+0000'')]"
proof -
  let ?i = "plain_issue ''A'' (Some ''In Progress'') ''2024-03-01T08:00:00.000+0000''
         [enter_at ''2024-03-10T09:00:00.000+0000'', leave_at ''2024-03-12T09:00:00.000+0000'']"
  let ?es = "[(''2024-03-10T09:00:00.000+0000'', enter_at ''2024-03-10T09:00:00.000+0000''),
       (''2024-03-12T09:00:00.000+0000'', leave_at ''2024-03-12T09:00:00.000+0000'')]"
  let ?e = "jira_time ''2024-03-20T23:59:59.999+0000''"
  let ?st' = "fallback jira_time ?e ?i (still_in_progress ?e ?i (walk jira_time ?i ?es init_state))"
  have h2: "sorted_changelog (issue_histories ?i) = Inr ?es"
    by (simp add: sorted_changelog_def plain_issue_def enter_at_def leave_at_def)
  then have h1: "issue_step jira_time ?e ?i init_state = Inr ?st'"
    by (simp add: issue_step_def)
  have x: "explicit_intervals jira_time ?e ?i ?es
      = [interval ''A'' (jira_time ''2024-03-10T09:00:00.000+0000'')
                        (jira_time ''2024-03-12T09:00:00.000+0000'')]"
    by (simp add: explicit_intervals_def opens_def eval_defs)
  have f: "falls_back jira_time ?i ?es (seen_keys init_state)"
    by (simp add: falls_back_def opens_def eval_defs)
  have fi: "fallback_interval jira_time ?e ?i
      = interval ''A'' (jira_time ''2024-03-01T08:00:00.000+0000'') ?e"
    by (simp add: fallback_interval_def eval_defs)
  from C2_fallback_per_issue [OF h1 h2] x f fi show ?thesis
    by (simp add: init_state_def)
qed

text \<open>
  C2 as stated fails: the changelog below holds an explicit event entering the tracked
  status and gives the explicit interval from March 10 to March 12, and the issue receives
  the fallback interval from its creation on March 1 to the observation end, and a
  diagnostic entry, all the same.
\<close>

theorem C2_counterexample:
  "parse_wip_ranges jira_time
     [plain_issue ''A'' (Some ''In Progress'') ''2024-03-01T08:00:00.000+0000''
        [enter_at ''2024-03-10T09:00:00.000+0000'', leave_at ''2024-03-12T09:00:00.000+0000'']]
     (jira_time ''2024-03-20T23:59:59.999+0000'') =
   Inr ([interval ''A'' (jira_time ''2024-03-10T09:00:00.000+0000'')
                        (jira_time ''2024-03-12T09:00:00.000+0000''),
         interval ''A'' (jira_time ''2024-03-01T08:00:00.000+0000'')
                        (jira_time ''2024-03-20T23:59:59.999+0000'')],
        [(''A'', ''s'')])"
  by (simp add: eval_defs)

section \<open>Extraction: well-ordered intervals\<close>

text \<open>
  C9, as the source has it. When the observation end is not before any changelog
  timestamp and not before the creation time of any issue of the batch, and within each
  changelog the order of the timestamp strings, by which the source sorts, is the order
  of their instants, every interval returned, closed, open or fallback, has its start not
  after its end. Zero-duration intervals occur and are returned like the others.
\<close>

theorem C9_start_le_end:
  assumes "parse_wip_ranges to_datetime issues e = Inr (wip, missing)"
    and "\<forall>i\<in>set issues. to_datetime (issue_created i) \<le> e
           \<and> (\<forall>h\<in>set (issue_histories i). \<forall>k. created h = Some k \<longrightarrow> to_datetime k \<le> e)
           \<and> time_ordered to_datetime (issue_histories i)"
  shows "\<forall>r\<in>set wip. wip_start r \<le> wip_end r"
proof -
  from assms(1) obtain st where l: "parse_loop to_datetime e issues init_state = Inr st"
    and w: "wip = wip_records st"
    by (auto simp: parse_wip_ranges_def split: sum.splits)
  have "list_all (\<lambda>r. wip_start r \<le> wip_end r) (wip_records init_state)"
    by (simp add: init_state_def)
  from parse_loop_ok [OF l assms(2) this] show ?thesis
    by (simp add: w list_all_iff)
qed

theorem C9_start_le_end_witness:
  "parse_wip_ranges jira_time
     [plain_issue ''A'' (Some ''Done'') ''2024-03-01T08:00:00.000+0000''
        [enter_at ''2024-03-10T09:00:00.000+0000'', leave_at ''2024-03-10T09:00:00.000+0000''],
      plain_issue ''B'' (Some ''In Progress'') ''2024-03-02T08:00:00.000+0000''
        [enter_at ''2024-03-14T09:00:00.000+0000''],
      plain_issue ''C'' (Some ''In Progress'') ''2024-03-03T08:00:00.000+0000'' []]
     (jira_time ''2024-03-20T23:59:59.999+0000'')
     = Inr ([interval ''A'' (jira_time ''2024-03-10T09:00:00.000+0000'')
                            (jira_time ''2024-03-10T09:00:00.000+0000''),
             interval ''B'' (jira_time ''2024-03-14T09:00:00.000+0000'')
                            (jira_time ''2024-03-20T23:59:59.999+0000''),
             interval ''C'' (jira_time ''2024-03-03T08:00:00.000+0000'')
                            (jira_time ''2024-03-20T23:59:59.999+0000'')],
            [(''C'', ''s'')])
   \<and> jira_time ''2024-03-10T09:00:00.000+0000'' \<le> jira_time ''2024-03-10T09:00:00.000+0000''
   \<and> jira_time ''2024-03-14T09:00:00.000+0000'' \<le> jira_time ''2024-03-20T23:59:59.999+0000''
   \<and> jira_time ''2024-03-03T08:00:00.000+0000'' \<le> jira_time ''2024-03-20T23:59:59.999+0000''"
proof -
  let ?is = "[plain_issue ''A'' (Some ''Done'') ''2024-03-01T08:00:00.000+0000''
        [enter_at ''2024-03-10T09:00:00.000+0000'', leave_at ''2024-03-10T09:00:00.000+0000''],
      plain_issue ''B'' (Some ''In Progress'') ''2024-03-02T08:00:00.000+0000''
        [enter_at ''2024-03-14T09:00:00.000+0000''],
      plain_issue ''C'' (Some ''In Progress'') ''2024-03-03T08:00:00.000+0000'' []]"
  let ?e = "jira_time ''2024-03-20T23:59:59.999+0000''"
  have h1: "parse_wip_ranges jira_time ?is ?e
     = Inr ([interval ''A'' (jira_time ''2024-03-10T09:00:00.000+0000'')
                            (jira_time ''2024-03-10T09:00:00.000+0000''),
             interval ''B'' (jira_time ''2024-03-14T09:00:00.000+0000'') ?e,
             interval ''C'' (jira_time ''2024-03-03T08:00:00.000+0000'') ?e],
            [(''C'', ''s'')])"
    by (simp add: eval_defs)
  have h2: "\<forall>i\<in>set ?is. jira_time (issue_created i) \<le> ?e
           \<and> (\<forall>h\<in>set (issue_histories i). \<forall>k. created h = Some k \<longrightarrow> jira_time k \<le> ?e)
           \<and> time_ordered jira_time (issue_histories i)"
    by (simp add: time_ordered_def plain_issue_def enter_at_def leave_at_def jira_time_values)
  from C9_start_le_end [OF h1 h2] h1 show ?thesis by (simp add: interval_def)
qed

text \<open>
  C9 as stated fails, in two ways. Issue \<open>A\<close> has no changelog event at all, so the
  observation end of March 20 is not before any event timestamp; it was created on March
  25, and its fallback interval starts at its creation and ends at the observation end.
  Issue \<open>B\<close> has its two events stamped in the hour in which the UTC offset changes from
  \<open>+0200\<close> to \<open>+0100\<close>: the string of the enter event sorts first, its instant 01:10 UTC
  is after the instant 00:30 UTC of the leave event, and the closed interval starts after
  it ends, the observation end being after both.
\<close>

theorem C9_counterexample:
  "parse_wip_ranges jira_time
     [plain_issue ''A'' (Some ''In Progress'') ''2024-03-25T08:00:00.000+0000'' []]
     (jira_time ''2024-03-20T23:59:59.999+0000'') =
     Inr ([interval ''A'' (jira_time ''2024-03-25T08:00:00.000+0000'')
                          (jira_time ''2024-03-20T23:59:59.999+0000'')], [(''A'', ''s'')])
   \<and> jira_time ''2024-03-20T23:59:59.999+0000'' < jira_time ''2024-03-25T08:00:00.000+0000''
   \<and> parse_wip_ranges jira_time
     [plain_issue ''B'' (Some ''Done'') ''2024-10-01T08:00:00.000+0200''
        [enter_at ''2024-10-27T02:10:00.000+0100'', leave_at ''2024-10-27T02:30:00.000+0200'']]
     (jira_time ''2024-10-28T23:59:59.999+0100'') =
     Inr ([interval ''B'' (jira_time ''2024-10-27T02:10:00.000+0100'')
                          (jira_time ''2024-10-27T02:30:00.000+0200'')], [])
   \<and> jira_time ''2024-10-27T02:30:00.000+0200'' < jira_time ''2024-10-27T02:10:00.000+0100''
   \<and> jira_time ''2024-10-27T02:10:00.000+0100'' \<le> jira_time ''2024-10-28T23:59:59.999+0100''"
  by (simp add: eval_defs)

section \<open>Extraction: a changelog entry without timestamp\<close>

text \<open>
  C4, as the source has it. The extraction raises \<^verbatim>\<open>KeyError\<close> exactly when some changelog
  entry of some issue of the batch has no \<^verbatim>\<open>created\<close> key: the sort key of every entry is
  computed before the walk, nothing catches the exception, and no interval of any issue
  is returned. When every entry carries its timestamp the call returns.
\<close>

theorem C4_missing_timestamp_raises:
  "parse_wip_ranges to_datetime issues e = Inl KeyError \<longleftrightarrow>
     (\<exists>i\<in>set issues. \<exists>h\<in>set (issue_histories i). created h = None)"
proof -
  have "parse_wip_ranges to_datetime issues e = Inl KeyError
      \<longleftrightarrow> (\<exists>x. parse_loop to_datetime e issues init_state = Inl x)"
    by (cases "parse_loop to_datetime e issues init_state"; simp add: parse_wip_ranges_def;
        metis error.exhaust)
  also have "\<dots> \<longleftrightarrow> (\<exists>i\<in>set issues. None \<in> created ` set (issue_histories i))"
    by (rule parse_loop_Inl)
  also have "\<dots> \<longleftrightarrow> (\<exists>i\<in>set issues. \<exists>h\<in>set (issue_histories i). created h = None)"
    by (metis (mono_tags, lifting) image_iff)
  finally show ?thesis .
qed

theorem C4_missing_timestamp_raises_witness:
  "parse_wip_ranges jira_time
     [plain_issue ''A'' (Some ''Done'') ''2024-03-01T08:00:00.000+0000''
        [enter_at ''2024-03-10T09:00:00.000+0000'', leave_at ''2024-03-12T09:00:00.000+0000''],
      plain_issue ''B'' (Some ''Done'') ''2024-03-01T08:00:00.000+0000''
        [leave_at ''2024-03-14T09:00:00.000+0000'',
         \<lparr>created = None,
          items = [\<lparr>item_field = Some ''status'', item_fromString = Some ''To Do'',
                    item_toString = Some ''In Progress''\<rparr>]\<rparr>]]
     (jira_time ''2024-03-20T23:59:59.999+0000'')
     = Inl KeyError
   \<and> parse_wip_ranges jira_time
     [plain_issue ''A'' (Some ''Done'') ''2024-03-01T08:00:00.000+0000''
        [enter_at ''2024-03-10T09:00:00.000+0000'', leave_at ''2024-03-12T09:00:00.000+0000'']]
     (jira_time ''2024-03-20T23:59:59.999+0000'')
     \<noteq> Inl KeyError"
  using C4_missing_timestamp_raises
     [of jira_time "[plain_issue ''A'' (Some ''Done'') ''2024-03-01T08:00:00.000+0000''
        [enter_at ''2024-03-10T09:00:00.000+0000'', leave_at ''2024-03-12T09:00:00.000+0000''],
      plain_issue ''B'' (Some ''Done'') ''2024-03-01T08:00:00.000+0000''
        [leave_at ''2024-03-14T09:00:00.000+0000'',
         \<lparr>created = None,
          items = [\<lparr>item_field = Some ''status'', item_fromString = Some ''To Do'',
                    item_toString = Some ''In Progress''\<rparr>]\<rparr>]]"
      "jira_time ''2024-03-20T23:59:59.999+0000''"]
    C4_missing_timestamp_raises
     [of jira_time "[plain_issue ''A'' (Some ''Done'') ''2024-03-01T08:00:00.000+0000''
        [enter_at ''2024-03-10T09:00:00.000+0000'', leave_at ''2024-03-12T09:00:00.000+0000'']]"
      "jira_time ''2024-03-20T23:59:59.999+0000''"]
  by (simp add: plain_issue_def enter_at_def leave_at_def)

text \<open>
  C4 as stated fails: issue \<open>A\<close> alone gives its closed interval; in a batch with an
  issue \<open>B\<close> whose one status event has no timestamp the call raises, and the interval
  of \<open>A\<close> is not returned.
\<close>

theorem C4_counterexample:
  "parse_wip_ranges jira_time
     [plain_issue ''A'' (Some ''Done'') ''2024-03-01T08:00:00.000+0000''
        [enter_at ''2024-03-10T09:00:00.000+0000'', leave_at ''2024-03-12T09:00:00.000+0000'']]
     (jira_time ''2024-03-20T23:59:59.999+0000'') =
     Inr ([interval ''A'' (jira_time ''2024-03-10T09:00:00.000+0000'')
                          (jira_time ''2024-03-12T09:00:00.000+0000'')], [])
   \<and> parse_wip_ranges jira_time
       [plain_issue ''A'' (Some ''Done'') ''2024-03-01T08:00:00.000+0000''
          [enter_at ''2024-03-10T09:00:00.000+0000'', leave_at ''2024-03-12T09:00:00.000+0000''],
        plain_issue ''B'' (Some ''Done'') ''2024-03-01T08:00:00.000+0000''
          [\<lparr>created = None,
            items = [\<lparr>item_field = Some ''status'', item_fromString = Some ''To Do'',
                      item_toString = Some ''In Progress''\<rparr>]\<rparr>]]
       (jira_time ''2024-03-20T23:59:59.999+0000'') =
     Inl KeyError"
  by (simp add: eval_defs)

section \<open>Extraction: one fallback per key\<close>

text \<open>
  C10. The set \<^verbatim>\<open>seen_keys\<close> is shared by all the issue records of one call. For a batch
  that the extraction returns on:
  \<^item> no key occurs twice in the diagnostic list, whatever keys the records repeat;
  \<^item> when a record \<open>j\<close>, before \<open>i\<close> in the batch or \<open>i\<close> itself, has the key of \<open>i\<close> and
    got a still-open interval, the pass over \<open>i\<close> appends the intervals of the changelog
    of \<open>i\<close> only: no fallback interval and no diagnostic entry;
  \<^item> the interval list of the batch is, record by record in input order, the intervals
    of the record's changelog followed by at most one fallback interval; the diagnostic
    list has one entry for each record that got a fallback interval, and no two of these
    records have the same key. So the batch output holds at most one fallback interval
    for each key.
\<close>

theorem C10_fallback_once_per_key:
  assumes "parse_wip_ranges to_datetime issues e = Inr (wip, missing)"
  shows "distinct (map fst missing)
    \<and> (\<forall>pre i post j es esi.
          issues = pre @ i # post \<and> j \<in> set (pre @ [i]) \<and> issue_key j = issue_key i
          \<and> sorted_changelog (issue_histories j) = Inr es \<and> opens to_datetime j es
          \<and> sorted_changelog (issue_histories i) = Inr esi \<longrightarrow>
          (\<exists>w1 m1. parse_wip_ranges to_datetime pre e = Inr (w1, m1)
             \<and> parse_wip_ranges to_datetime (pre @ [i]) e
                 = Inr (w1 @ explicit_intervals to_datetime e i esi, m1)))
    \<and> (\<exists>fbs. length fbs = length issues
          \<and> wip = concat (map (contribution to_datetime e) (zip issues fbs))
          \<and> missing = map (\<lambda>ib. (issue_key (fst ib), issue_summary (fst ib)))
                          (filter snd (zip issues fbs))
          \<and> distinct (map (\<lambda>ib. issue_key (fst ib)) (filter snd (zip issues fbs))))"
proof (intro conjI allI impI)
  from assms obtain st where l: "parse_loop to_datetime e issues init_state = Inr st"
    and m: "missing = missing_details st"
    by (auto simp: parse_wip_ranges_def split: sum.splits)
  have "dedup_ok init_state" by (simp add: dedup_ok_def init_state_def)
  from parse_loop_dedup [OF l this] show "distinct (map fst missing)"
    by (simp add: dedup_ok_def m)
next
  fix pre i post j es esi
  assume a: "issues = pre @ i # post \<and> j \<in> set (pre @ [i]) \<and> issue_key j = issue_key i
          \<and> sorted_changelog (issue_histories j) = Inr es \<and> opens to_datetime j es
          \<and> sorted_changelog (issue_histories i) = Inr esi"
  from assms obtain st where l: "parse_loop to_datetime e issues init_state = Inr st"
    by (auto simp: parse_wip_ranges_def split: sum.splits)
  with a have "parse_loop to_datetime e (pre @ i # post) init_state = Inr st" by simp
  then obtain st1 st2 where p: "parse_loop to_datetime e pre init_state = Inr st1"
    and s: "issue_step to_datetime e i st1 = Inr st2"
    by (auto simp: parse_loop_append split: sum.splits)
  from a have es: "sorted_changelog (issue_histories j) = Inr es" and o: "opens to_datetime j es"
    and esi: "sorted_changelog (issue_histories i) = Inr esi" and k: "issue_key j = issue_key i"
    by simp_all
  have nf: "\<not> falls_back to_datetime i esi (seen_keys st1)"
  proof (cases "j = i")
    case True
    with es esi o show ?thesis by (simp add: falls_back_def)
  next
    case False
    with a have "j \<in> set pre" by simp
    from parse_loop_opens_seen [OF p this es o] k show ?thesis by (simp add: falls_back_def)
  qed
  from s obtain es' where es': "sorted_changelog (issue_histories i) = Inr es'"
    and w: "wip_records st2 = wip_records st1 @ explicit_intervals to_datetime e i es'
          @ (if falls_back to_datetime i es' (seen_keys st1)
             then [fallback_interval to_datetime e i] else [])"
    and m: "missing_details st2 = missing_details st1
          @ (if falls_back to_datetime i es' (seen_keys st1)
             then [(issue_key i, issue_summary i)] else [])"
    by (rule issue_step_Inr)
  from es' esi have e': "es' = esi" by simp
  have "parse_wip_ranges to_datetime pre e = Inr (wip_records st1, missing_details st1)"
    by (simp add: parse_wip_ranges_def p)
  moreover have "parse_wip_ranges to_datetime (pre @ [i]) e
      = Inr (wip_records st1 @ explicit_intervals to_datetime e i esi, missing_details st1)"
    using w m nf by (simp add: parse_wip_ranges_def parse_loop_append p s e')
  ultimately show "\<exists>w1 m1. parse_wip_ranges to_datetime pre e = Inr (w1, m1)
             \<and> parse_wip_ranges to_datetime (pre @ [i]) e
                 = Inr (w1 @ explicit_intervals to_datetime e i esi, m1)"
    by blast
next
  from assms obtain st where l: "parse_loop to_datetime e issues init_state = Inr st"
    and w: "wip = wip_records st" and m: "missing = missing_details st"
    by (auto simp: parse_wip_ranges_def split: sum.splits)
  from parse_loop_decomp [OF l] obtain fbs where "length fbs = length issues"
    and "wip_records st = wip_records init_state
          @ concat (map (contribution to_datetime e) (zip issues fbs))"
    and "missing_details st = missing_details init_state
          @ map (\<lambda>ib. (issue_key (fst ib), issue_summary (fst ib))) (filter snd (zip issues fbs))"
    and "distinct (map (\<lambda>ib. issue_key (fst ib)) (filter snd (zip issues fbs)))"
    by blast
  then show "\<exists>fbs. length fbs = length issues
          \<and> wip = concat (map (contribution to_datetime e) (zip issues fbs))
          \<and> missing = map (\<lambda>ib. (issue_key (fst ib), issue_summary (fst ib)))
                          (filter snd (zip issues fbs))
          \<and> distinct (map (\<lambda>ib. issue_key (fst ib)) (filter snd (zip issues fbs)))"
    unfolding w m by (auto simp: init_state_def)
qed

theorem C10_fallback_once_per_key_witness:
  "parse_wip_ranges jira_time
     [plain_issue ''A'' (Some ''In Progress'') ''2024-03-01T08:00:00.000+0000''
        [enter_at ''2024-03-14T09:00:00.000+0000''],
      plain_issue ''A'' (Some ''In Progress'') ''2024-03-01T08:00:00.000+0000'' [],
      plain_issue ''B'' (Some ''In Progress'') ''2024-03-03T08:00:00.000+0000'' [],
      plain_issue ''B'' (Some ''In Progress'') ''2024-03-03T08:00:00.000+0000'' []]
     (jira_time ''2024-03-20T23:59:59.999+0000'')
     = Inr ([interval ''A'' (jira_time ''2024-03-14T09:00:00.000+0000'')
                            (jira_time ''2024-03-20T23:59:59.999+0000''),
             interval ''B'' (jira_time ''2024-03-03T08:00:00.000+0000'')
                            (jira_time ''2024-03-20T23:59:59.999+0000'')],
            [(''B'', ''s'')])
   \<and> distinct (map fst [(''B'', ''s'')])
   \<and> opens jira_time
        (plain_issue ''A'' (Some ''In Progress'') ''2024-03-01T08:00:00.000+0000''
           [enter_at ''2024-03-14T09:00:00.000+0000''])
        [(''2024-03-14T09:00:00.000+0000'', enter_at ''2024-03-14T09:00:00.000+0000'')]
   \<and> parse_wip_ranges jira_time
       ([plain_issue ''A'' (Some ''In Progress'') ''2024-03-01T08:00:00.000+0000''
           [enter_at ''2024-03-14T09:00:00.000+0000'']]
        @ [plain_issue ''A'' (Some ''In Progress'') ''2024-03-01T08:00:00.000+0000'' []])
       (jira_time ''2024-03-20T23:59:59.999+0000'')
     = Inr ([interval ''A'' (jira_time ''2024-03-14T09:00:00.000+0000'')
                            (jira_time ''2024-03-20T23:59:59.999+0000'')], [])
   \<and> [interval ''A'' (jira_time ''2024-03-14T09:00:00.000+0000'')
                      (jira_time ''2024-03-20T23:59:59.999+0000''),
       interval ''B'' (jira_time ''2024-03-03T08:00:00.000+0000'')
                      (jira_time ''2024-03-20T23:59:59.999+0000'')]
     = concat (map (contribution jira_time (jira_time ''2024-03-20T23:59:59.999+0000''))
         (zip [plain_issue ''A'' (Some ''In Progress'') ''2024-03-01T08:00:00.000+0000''
                 [enter_at ''2024-03-14T09:00:00.000+0000''],
               plain_issue ''A'' (Some ''In Progress'') ''2024-03-01T08:00:00.000+0000'' [],
               plain_issue ''B'' (Some ''In Progress'') ''2024-03-03T08:00:00.000+0000'' [],
               plain_issue ''B'' (Some ''In Progress'') ''2024-03-03T08:00:00.000+0000'' []]
              [False, False, True, False]))"
proof -
  let ?a1 = "plain_issue ''A'' (Some ''In Progress'') ''2024-03-01T08:00:00.000+0000''
        [enter_at ''2024-03-14T09:00:00.000+0000'']"
  let ?a2 = "plain_issue ''A'' (Some ''In Progress'') ''2024-03-01T08:00:00.000+0000'' []"
  let ?b = "plain_issue ''B'' (Some ''In Progress'') ''2024-03-03T08:00:00.000+0000'' []"
  let ?is = "[?a1, ?a2, ?b, ?b]"
  let ?e = "jira_time ''2024-03-20T23:59:59.999+0000''"
  let ?es = "[(''2024-03-14T09:00:00.000+0000'', enter_at ''2024-03-14T09:00:00.000+0000'')]"
  let ?ia = "interval ''A'' (jira_time ''2024-03-14T09:00:00.000+0000'') ?e"
  let ?ib = "interval ''B'' (jira_time ''2024-03-03T08:00:00.000+0000'') ?e"
  have h: "parse_wip_ranges jira_time ?is ?e = Inr ([?ia, ?ib], [(''B'', ''s'')])"
    by (simp add: eval_defs)
  have o: "opens jira_time ?a1 ?es"
    by (simp add: opens_def eval_defs)
  have sj: "sorted_changelog (issue_histories ?a1) = Inr ?es"
    by (simp add: sorted_changelog_def plain_issue_def enter_at_def)
  have si: "sorted_changelog (issue_histories ?a2) = Inr []"
    by (simp add: sorted_changelog_def plain_issue_def)
  have p1: "parse_wip_ranges jira_time [?a1] ?e = Inr ([?ia], [])"
    by (simp add: eval_defs)
  have x: "explicit_intervals jira_time ?e ?a2 [] = []"
    by (simp add: explicit_intervals_def opens_def eval_defs)
  have c1: "contribution jira_time ?e (?a1, False) = [?ia]"
    by (simp add: contribution_def entries_of_def explicit_intervals_def opens_def eval_defs)
  have c2: "contribution jira_time ?e (?a2, False) = []"
    by (simp add: contribution_def entries_of_def explicit_intervals_def opens_def eval_defs)
  have c3: "contribution jira_time ?e (?b, True) = [?ib]"
    by (simp add: contribution_def entries_of_def explicit_intervals_def opens_def
        fallback_interval_def eval_defs)
  have c4: "contribution jira_time ?e (?b, False) = []"
    by (simp add: contribution_def entries_of_def explicit_intervals_def opens_def eval_defs)
  have dec: "[?ia, ?ib]
      = concat (map (contribution jira_time ?e) (zip ?is [False, False, True, False]))"
    by (simp add: c1 c2 c3 c4)
  note c = C10_fallback_once_per_key [OF h]
  from c have d: "distinct (map fst [(''B'', ''s'')])" by blast
  from c have q: "\<forall>pre i post j es esi.
          ?is = pre @ i # post \<and> j \<in> set (pre @ [i]) \<and> issue_key j = issue_key i
          \<and> sorted_changelog (issue_histories j) = Inr es \<and> opens jira_time j es
          \<and> sorted_changelog (issue_histories i) = Inr esi \<longrightarrow>
          (\<exists>w1 m1. parse_wip_ranges jira_time pre ?e = Inr (w1, m1)
             \<and> parse_wip_ranges jira_time (pre @ [i]) ?e
                 = Inr (w1 @ explicit_intervals jira_time ?e i esi, m1))"
    by blast
  have "?is = [?a1] @ ?a2 # [?b, ?b] \<and> ?a1 \<in> set ([?a1] @ [?a2])
          \<and> issue_key ?a1 = issue_key ?a2
          \<and> sorted_changelog (issue_histories ?a1) = Inr ?es \<and> opens jira_time ?a1 ?es
          \<and> sorted_changelog (issue_histories ?a2) = Inr []"
    using o sj si by (simp add: plain_issue_def)
  with q have "\<exists>w1 m1. parse_wip_ranges jira_time [?a1] ?e = Inr (w1, m1)
             \<and> parse_wip_ranges jira_time ([?a1] @ [?a2]) ?e
                 = Inr (w1 @ explicit_intervals jira_time ?e ?a2 [], m1)"
    by blast
  with p1 x have two: "parse_wip_ranges jira_time ([?a1] @ [?a2]) ?e = Inr ([?ia], [])"
    by auto
  from h d o two dec show ?thesis by blast
qed

section \<open>The month query\<close>

text \<open>
  C8. The query selects an interval, that is, returns its row, if and only if the interval
  is in the input and \<open>start \<le> end_of_month\<close> and \<open>end \<ge> start_of_month\<close>. Touching the
  window at one instant counts: the interval \<open>[5, 10]\<close> is selected for the windows
  \<open>[10, 15]\<close> and \<open>[0, 5]\<close>.
\<close>

theorem C8_overlap_selection:
  "((\<exists>rows. get_issues_in_progress_in_month period recs m = Inr rows \<and> matched_row_of r \<in> set rows)
      \<longleftrightarrow> (r \<in> set recs \<and> wip_start r \<le> snd (period m) \<and> wip_end r \<ge> fst (period m)))
   \<and> get_issues_in_progress_in_month (\<lambda>_. (10, 15)) [interval ''A'' 5 10] m
       = Inr [matched_row_of (interval ''A'' 5 10)]
   \<and> get_issues_in_progress_in_month (\<lambda>_. (0, 5)) [interval ''A'' 5 10] m
       = Inr [matched_row_of (interval ''A'' 5 10)]"
proof -
  let ?P = "\<lambda>r. wip_start r \<le> snd (period m) \<and> wip_end r \<ge> fst (period m)"
  let ?matched = "map matched_row_of (filter ?P recs)"
  have res: "get_issues_in_progress_in_month period recs m =
      (if ?matched = [] then Inl KeyError else Inr (sort_key row_in_progress_start ?matched))"
    by (simp add: get_issues_in_progress_in_month_def Let_def)
  have mem: "matched_row_of r \<in> set ?matched \<longleftrightarrow> r \<in> set recs \<and> ?P r"
    using matched_row_of_inj by fastforce
  have general: "(\<exists>rows. get_issues_in_progress_in_month period recs m = Inr rows \<and> matched_row_of r \<in> set rows)
      \<longleftrightarrow> (r \<in> set recs \<and> ?P r)"
  proof (cases "?matched = []")
    case True
    then have "matched_row_of r \<notin> set ?matched" by simp
    with mem True res show ?thesis by simp
  next
    case False
    with res have "get_issues_in_progress_in_month period recs m
        = Inr (sort_key row_in_progress_start ?matched)" by simp
    with mem show ?thesis by simp
  qed
  have touch: "get_issues_in_progress_in_month (\<lambda>_. (10, 15)) [interval ''A'' 5 10] m
       = Inr [matched_row_of (interval ''A'' 5 10)]"
    "get_issues_in_progress_in_month (\<lambda>_. (0, 5)) [interval ''A'' 5 10] m
       = Inr [matched_row_of (interval ''A'' 5 10)]"
    by (simp_all add: get_issues_in_progress_in_month_def interval_def)
  from general touch show ?thesis by blast
qed

text \<open>
  C5. When no interval overlaps the month, the query should return an empty table. The
  source builds the frame from the empty list of matches, so the frame has no column
  \<^verbatim>\<open>in_progress_start\<close>, and sorting by it raises \<^verbatim>\<open>KeyError\<close>. The extraction over no
  issue does return the two empty lists.
\<close>

theorem C5_no_overlap_raises:
  "(filter (\<lambda>r. wip_start r \<le> snd (period m) \<and> wip_end r \<ge> fst (period m)) recs = [] \<longrightarrow>
      get_issues_in_progress_in_month period recs m = Inl KeyError)
   \<and> parse_wip_ranges to_datetime [] e = Inr ([], [])"
  by (simp add: get_issues_in_progress_in_month_def Let_def parse_wip_ranges_def init_state_def)

theorem C5_no_overlap_raises_witness:
  "get_issues_in_progress_in_month (\<lambda>_. (59 * DAY, 90 * DAY - 1)) [interval ''A'' (31 * DAY) (58 * DAY)] ''1970-03''
     = Inl KeyError
   \<and> get_issues_in_progress_in_month (\<lambda>_. (59 * DAY, 90 * DAY - 1)) [] ''1970-03'' = Inl KeyError"
  using C5_no_overlap_raises [of "\<lambda>_. (59 * DAY, 90 * DAY - 1)" "''1970-03''" "[interval ''A'' (31 * DAY) (58 * DAY)]"]
    C5_no_overlap_raises [of "\<lambda>_. (59 * DAY, 90 * DAY - 1)" "''1970-03''" "[]"]
  by (simp add: interval_def DAY_def)

section \<open>The daily series\<close>

text \<open>
  C3, as the source has it. The series has one entry for each of the \<open>L + 1\<close> days from
  \<open>L\<close> days before the day of the clock reading to that day itself; the entry of a day is
  stamped with the instant 23:59:59.999999 UTC of that day, and its count is the number of
  intervals with \<open>start \<le> instant \<le> end\<close>. A single interval that starts on a day of the
  range, at or before that day's instant, and ends two days later at that day's instant
  or after it (and before the next one), has counts that sum to 3.
\<close>

theorem C3_daily_census:
  "daily_wip_counts now L recs =
     map (\<lambda>k. (day_instant now L k, length (filter (\<lambda>r. covers r (day_instant now L k)) recs))) [0..L]
   \<and> day_instant now L k = (now div DAY - L + k) * DAY + (DAY - 1000)
   \<and> (0 \<le> a \<and> a + 2 \<le> L
        \<and> day_instant now L (a - 1) < wip_start r \<and> wip_start r \<le> day_instant now L a
        \<and> day_instant now L (a + 2) \<le> wip_end r \<and> wip_end r < day_instant now L (a + 3)
      \<longrightarrow> sum_list (map snd (daily_wip_counts now L [r])) = 3)"
proof (intro conjI impI)
  show "daily_wip_counts now L recs =
     map (\<lambda>k. (day_instant now L k, length (filter (\<lambda>r. covers r (day_instant now L k)) recs))) [0..L]"
    by (rule daily_wip_counts_eq)
  show "day_instant now L k = (now div DAY - L + k) * DAY + (DAY - 1000)"
    by (simp add: day_instant_def end_of_day_def algebra_simps)
next
  assume "0 \<le> a \<and> a + 2 \<le> L
        \<and> day_instant now L (a - 1) < wip_start r \<and> wip_start r \<le> day_instant now L a
        \<and> day_instant now L (a + 2) \<le> wip_end r \<and> wip_end r < day_instant now L (a + 3)"
  then show "sum_list (map snd (daily_wip_counts now L [r])) = 3"
    by (intro three_days [of a L now r]) simp_all
qed

theorem C3_daily_census_witness:
  "daily_wip_counts (3 * DAY) 4 [interval ''A'' 0 (3 * DAY - 1000)] =
     [(- 1000, 0), (86399999999000, 1), (172799999999000, 1),
      (259199999999000, 1), (345599999999000, 0)]
   \<and> sum_list (map snd (daily_wip_counts (3 * DAY) 4 [interval ''A'' 0 (3 * DAY - 1000)])) = 3"
proof -
  have h: "0 \<le> (1::int) \<and> (1::int) + 2 \<le> 4
        \<and> day_instant (3 * DAY) 4 (1 - 1) < wip_start (interval ''A'' 0 (3 * DAY - 1000))
        \<and> wip_start (interval ''A'' 0 (3 * DAY - 1000)) \<le> day_instant (3 * DAY) 4 1
        \<and> day_instant (3 * DAY) 4 (1 + 2) \<le> wip_end (interval ''A'' 0 (3 * DAY - 1000))
        \<and> wip_end (interval ''A'' 0 (3 * DAY - 1000)) < day_instant (3 * DAY) 4 (1 + 3)"
    by (simp add: day_instant_def end_of_day_def interval_def DAY_def)
  have v: "daily_wip_counts (3 * DAY) 4 [interval ''A'' 0 (3 * DAY - 1000)] =
     [(- 1000, 0), (86399999999000, 1), (172799999999000, 1),
      (259199999999000, 1), (345599999999000, 0)]"
    by (simp add: daily_wip_counts_def end_of_day_def date_range_def DAY_def upto_rec1
      count_record_def interval_def)
  from C3_daily_census [of "3 * DAY" 4 "[interval ''A'' 0 (3 * DAY - 1000)]" 0 1 "interval ''A'' 0 (3 * DAY - 1000)"] h v
  show ?thesis by blast
qed

text \<open>
  C3 as stated fails: the interval from 1970-01-01 00:00 to 1970-01-03 00:00 spans three
  calendar days, the range is 1969-12-31 to 1970-01-04, and the counts sum to 2; the
  interval is not counted on its last day, whose instant 23:59:59.999999 is after its end.
\<close>

theorem C3_counterexample:
  "daily_wip_counts (3 * DAY) 4 [interval ''A'' 0 (2 * DAY)] =
     [(- 1000, 0), (86399999999000, 1), (172799999999000, 1),
      (259199999999000, 0), (345599999999000, 0)]"
  by (simp add: daily_wip_counts_def end_of_day_def date_range_def DAY_def upto_rec1
      count_record_def interval_def)




end
